theory Spec2Isabelle
  imports Complex_Main "HOL-Library.Multiset"
begin

section \<open>JavaScript values as the BOQ engine sees them\<close>

text \<open>
  The engine is \<^verbatim>\<open>utils/boq_logic.js\<close> (tokenizer, rate limiter, advisor adapter,
  \<^verbatim>\<open>parseAndMatchBOQ\<close>) and the \<^verbatim>\<open>/upload-boq\<close> handler of \<^verbatim>\<open>routes/boqRoutes.js\<close>.
  A JavaScript number is a rational or \<^verbatim>\<open>NaN\<close>: arithmetic is exact, so the rounding and
  the infinities of IEEE doubles are outside this model. \<^verbatim>\<open>NaN\<close> absorbs, as in
  JavaScript.
\<close>

datatype jsnum = Num rat | NaN

fun num_add :: "jsnum \<Rightarrow> jsnum \<Rightarrow> jsnum" where
  "num_add (Num a) (Num b) = Num (a + b)"
| "num_add _ _ = NaN"

fun num_mul :: "jsnum \<Rightarrow> jsnum \<Rightarrow> jsnum" where
  "num_mul (Num a) (Num b) = Num (a * b)"
| "num_mul _ _ = NaN"

fun isNaN :: "jsnum \<Rightarrow> bool" where
  "isNaN NaN = True"
| "isNaN (Num _) = False"

text \<open>A spreadsheet cell, a column of a database row, an environment variable.\<close>

datatype jsval = Undefined | Null | Bool bool | Number jsnum | Str string

text \<open>\<^verbatim>\<open>!!v\<close>: the falsy values are undefined, null, false, 0, NaN and the empty string.\<close>

fun truthy :: "jsval \<Rightarrow> bool" where
  "truthy Undefined = False"
| "truthy Null = False"
| "truthy (Bool b) = b"
| "truthy (Number (Num r)) = (r \<noteq> 0)"
| "truthy (Number NaN) = False"
| "truthy (Str s) = (s \<noteq> [])"

text \<open>
  What the JavaScript runtime and the libraries do and the repository does not define:
  \<^verbatim>\<open>String(n)\<close> on a number, \<^verbatim>\<open>parseFloat(s)\<close> on a string, \<^verbatim>\<open>JSON.parse\<close>, the
  first sheet of a workbook read by \<^verbatim>\<open>xlsx\<close> as an array of rows (\<open>None\<close>: the library
  throws), and the reply of the HTTP endpoint to the n-th request. They are parameters
  of the model.
\<close>

datatype json = JNull | JBool bool | JNum jsnum | JStr string
  | JArr "json list" | JObj "(string \<times> json) list"

datatype http_result = HttpFail | HttpOk "json option"

record runtime =
  numToString :: "rat \<Rightarrow> string"
  parseFloatStr :: "string \<Rightarrow> jsnum"
  jsonParse :: "string \<Rightarrow> json option"
  xlsxRows :: "string \<Rightarrow> jsval list list option"
  axiosPost :: "nat \<Rightarrow> string \<Rightarrow> string \<Rightarrow> http_result"

text \<open>\<^verbatim>\<open>String(v)\<close>, and \<^verbatim>\<open>String(v || '')\<close>.\<close>

fun toString :: "runtime \<Rightarrow> jsval \<Rightarrow> string" where
  "toString rt (Str s) = s"
| "toString rt (Number (Num r)) = numToString rt r"
| "toString rt (Number NaN) = ''NaN''"
| "toString rt (Bool b) = (if b then ''true'' else ''false'')"
| "toString rt Null = ''null''"
| "toString rt Undefined = ''undefined''"

definition string_or_empty :: "runtime \<Rightarrow> jsval \<Rightarrow> string" where
  "string_or_empty rt v = (if truthy v then toString rt v else [])"

text \<open>\<^verbatim>\<open>parseFloat(v)\<close>: a number is printed and read back, which gives the number.\<close>

fun parseFloat :: "runtime \<Rightarrow> jsval \<Rightarrow> jsnum" where
  "parseFloat rt (Number n) = n"
| "parseFloat rt (Str s) = parseFloatStr rt s"
| "parseFloat rt _ = NaN"

text \<open>\<^verbatim>\<open>row[i]\<close>: reading past the end of an array gives undefined.\<close>

definition cell :: "jsval list \<Rightarrow> nat \<Rightarrow> jsval" where
  "cell row i = (if i < length row then row ! i else Undefined)"

subsection \<open>Strings\<close>

text \<open>
  Strings are byte strings; case mapping and the character classes are the ASCII ones
  (a byte above 127 is neither a letter, a word character nor white space).
\<close>

definition isspace :: "char \<Rightarrow> bool" where
  "isspace c = (let n = (of_char c :: nat) in n = 32 \<or> (9 \<le> n \<and> n \<le> 13))"

definition isword :: "char \<Rightarrow> bool" where
  "isword c = (let n = (of_char c :: nat) in
     (97 \<le> n \<and> n \<le> 122) \<or> (65 \<le> n \<and> n \<le> 90) \<or> (48 \<le> n \<and> n \<le> 57) \<or> n = 95)"

definition lower_char :: "char \<Rightarrow> char" where
  "lower_char c = (let n = (of_char c :: nat) in
     if 65 \<le> n \<and> n \<le> 90 then char_of (n + 32) else c)"

definition toLowerCase :: "string \<Rightarrow> string" where
  "toLowerCase s = map lower_char s"

definition trim :: "string \<Rightarrow> string" where
  "trim s = rev (dropWhile isspace (rev (dropWhile isspace s)))"

text \<open>\<^verbatim>\<open>s.split(/\s+/)\<close>: a run of white space separates; the ends may give empty words.\<close>

function split_ws :: "string \<Rightarrow> string \<Rightarrow> string list" where
  "split_ws cur [] = [rev cur]"
| "split_ws cur (c # cs) =
     (if isspace c then rev cur # split_ws [] (dropWhile isspace cs)
      else split_ws (c # cur) cs)"
  by pat_completeness auto
termination
  by (relation "measure (\<lambda>(cur, s). length s)")
     (auto simp: less_Suc_eq_le length_dropWhile_le)


text \<open>\<^verbatim>\<open>s.replace(/pat/g, '')\<close> for a literal pattern: every occurrence, left to right.\<close>

function remove_all :: "string \<Rightarrow> string \<Rightarrow> string" where
  "remove_all pat [] = []"
| "remove_all pat (c # cs) =
     (if pat \<noteq> [] \<and> take (length pat) (c # cs) = pat
      then remove_all pat (drop (length pat) (c # cs))
      else c # remove_all pat cs)"
  by pat_completeness auto
termination
  by (relation "measure (\<lambda>(pat, s). length s)") auto

text \<open>\<^verbatim>\<open>new Set(xs)\<close>, in insertion order: the first occurrence of each element.\<close>

definition new_Set :: "'a list \<Rightarrow> 'a list" where
  "new_Set xs = foldl (\<lambda>acc x. if x \<in> set acc then acc else acc @ [x]) [] xs"

section \<open>Tokenizer\<close>

definition STOP_WORDS :: "string list" where
  "STOP_WORDS =
    [''a'', ''an'', ''and'', ''the'', ''in'', ''on'', ''for'', ''with'', ''of'', ''to'',
     ''is'', ''are'', ''was'', ''were'', ''including'', ''supply'', ''providing'', ''of'',
     ''all'', ''complete'', ''work'', ''as'', ''per'', ''details'', ''item'', ''rate'',
     ''charges'', ''fixing'', ''laying'']"

text \<open>
  \<^verbatim>\<open>tokenize(text)\<close>: a value that is falsy or not a string gives the empty set;
  otherwise lower-case, delete every character that is neither a word character nor
  white space, split at white space, keep the words longer than 2 that are no stop
  words.
\<close>

fun tokenize :: "jsval \<Rightarrow> string list" where
  "tokenize (Str s) =
     (if s = [] then []
      else new_Set (filter (\<lambda>word. length word > 2 \<and> word \<notin> set STOP_WORDS)
             (split_ws [] (filter (\<lambda>c. isword c \<or> isspace c) (toLowerCase s)))))"
| "tokenize _ = []"

section \<open>Fuzzy rate matcher\<close>

datatype js_error = TypeError | SyntaxError | NetworkError

text \<open>A row of the \<^verbatim>\<open>rates\<close> table as the driver returns it.\<close>

record rate_row =
  r_item_name :: jsval
  r_unit :: jsval
  r_rate_value :: jsval
  r_keywords :: jsval

text \<open>
  \<^verbatim>\<open>ratesData.filter(rate => rate.unit.toLowerCase() === unit)\<close>: calling
  \<^verbatim>\<open>toLowerCase\<close> on a unit that is no string throws a TypeError.
\<close>

fun relevant_rates :: "string \<Rightarrow> rate_row list \<Rightarrow> js_error + rate_row list" where
  "relevant_rates u [] = Inr []"
| "relevant_rates u (r # rs) =
     (case r_unit r of
        Str s \<Rightarrow>
          (case relevant_rates u rs of
             Inl e \<Rightarrow> Inl e
           | Inr xs \<Rightarrow> Inr (if toLowerCase s = u then r # xs else xs))
      | _ \<Rightarrow> Inl TypeError)"

text \<open>The inner loop over the description's tokens.\<close>

definition score_step :: "string list \<Rightarrow> string list \<Rightarrow> nat \<Rightarrow> string \<Rightarrow> nat" where
  "score_step rateNameTokens keywordTokens cur token =
     (let c1 = (if token \<in> set rateNameTokens then cur + 2 else cur)
      in if token \<in> set keywordTokens then c1 + 1 else c1)"

definition currentScore :: "string list \<Rightarrow> rate_row \<Rightarrow> nat" where
  "currentScore descriptionTokens r =
     foldl (score_step (tokenize (r_item_name r)) (tokenize (r_keywords r))) 0 descriptionTokens"

text \<open>The loop over the candidates: a strictly higher score replaces the best match.\<close>

fun best_loop :: "string list \<Rightarrow> rate_row option \<times> nat \<Rightarrow> rate_row list
    \<Rightarrow> rate_row option \<times> nat" where
  "best_loop dts (bestMatch, highestScore) [] = (bestMatch, highestScore)"
| "best_loop dts (bestMatch, highestScore) (r # rs) =
     (if currentScore dts r > highestScore
      then best_loop dts (Some r, currentScore dts r) rs
      else best_loop dts (bestMatch, highestScore) rs)"

definition fuzzy_match :: "string \<Rightarrow> string \<Rightarrow> rate_row list
    \<Rightarrow> js_error + (rate_row option \<times> nat)" where
  "fuzzy_match description u ratesData =
     (case relevant_rates u ratesData of
        Inl e \<Rightarrow> Inl e
      | Inr relevantRates \<Rightarrow>
          Inr (if length relevantRates > 0
               then best_loop (tokenize (Str description)) (None, 0) relevantRates
               else (None, 0)))"

section \<open>External rate advisor adapter\<close>

text \<open>
  Property access on a parsed JSON value, for the keys the adapter reads
  (\<^verbatim>\<open>candidates\<close>, \<^verbatim>\<open>content\<close>, \<^verbatim>\<open>parts\<close>, \<^verbatim>\<open>text\<close>, \<^verbatim>\<open>rate\<close> and the index
  \<^verbatim>\<open>0\<close>); \<open>None\<close> is undefined. An object holds each key once.
\<close>

fun get_prop :: "json \<Rightarrow> string \<Rightarrow> json option" where
  "get_prop (JObj kvs) k = map_of kvs k"
| "get_prop (JArr xs) k = (if k = ''0'' then (case xs of [] \<Rightarrow> None | x # _ \<Rightarrow> Some x) else None)"
| "get_prop (JStr s) k = (if k = ''0'' then (case s of [] \<Rightarrow> None | c # _ \<Rightarrow> Some (JStr [c])) else None)"
| "get_prop _ k = None"

text \<open>Optional chaining \<^verbatim>\<open>v?.k\<close>: undefined and null give undefined.\<close>

fun chain :: "json option \<Rightarrow> string \<Rightarrow> json option" where
  "chain None k = None"
| "chain (Some JNull) k = None"
| "chain (Some v) k = get_prop v k"

fun json_truthy :: "json option \<Rightarrow> bool" where
  "json_truthy None = False"
| "json_truthy (Some JNull) = False"
| "json_truthy (Some (JBool b)) = b"
| "json_truthy (Some (JNum (Num r))) = (r \<noteq> 0)"
| "json_truthy (Some (JNum NaN)) = False"
| "json_truthy (Some (JStr s)) = (s \<noteq> [])"
| "json_truthy (Some (JArr _)) = True"
| "json_truthy (Some (JObj _)) = True"

definition NL :: string where
  "NL = [CHR 0x0A]"

definition prompt_of :: "string \<Rightarrow> string \<Rightarrow> string" where
  "prompt_of description u = concat
    [NL, ''      You are an expert quantity surveyor in India. For the BOQ item description below, provide an estimated market rate in Indian Rupees (INR) for the specified unit of measurement.'',
     NL, ''      - Analyze the description to understand the work involved.'',
     NL, ''      - Consider standard Indian construction costs.'',
     NL, ''      - Respond ONLY with a valid JSON object in the format: {'', [CHR 0x22], ''rate'', [CHR 0x22], '': <number>}'',
     NL, ''      - Do not include any other text, explanations, or markdown formatting.'',
     NL,
     NL, ''      **Description:** '', [CHR 0x22], description, [CHR 0x22],
     NL, ''      **Unit of Measurement:** '', [CHR 0x22], u, [CHR 0x22],
     NL, ''    '']"

definition geminiApiUrl :: "string \<Rightarrow> string" where
  "geminiApiUrl geminiApiKey =
     ''https://generativelanguage.googleapis.com/v1beta/models/gemini-2.5-flash-preview-09-2025:generateContent?key='' @ geminiApiKey"

text \<open>\<^verbatim>\<open>response.data?.candidates?.[0]?.content?.parts?.[0]?.text\<close>\<close>

definition rawText_of :: "json option \<Rightarrow> json option" where
  "rawText_of data =
     chain (chain (chain (chain (chain (chain data ''candidates'') ''0'') ''content'') ''parts'') ''0'') ''text''"

text \<open>
  The body of the \<^verbatim>\<open>try\<close> block, after the request: a failed request, a truthy
  \<^verbatim>\<open>rawText\<close> that is no string (it has no \<^verbatim>\<open>replace\<close>) and a text that is no JSON
  throw.
\<close>

definition ai_try :: "runtime \<Rightarrow> http_result \<Rightarrow> js_error + jsnum option" where
  "ai_try rt response =
     (case response of
        HttpFail \<Rightarrow> Inl NetworkError
      | HttpOk data \<Rightarrow>
          (let rawText = rawText_of data in
           if \<not> json_truthy rawText then Inr None
           else (case rawText of
                   Some (JStr s) \<Rightarrow>
                     (let jsonText = trim (remove_all ''```'' (remove_all ''```json'' s)) in
                      case jsonParse rt jsonText of
                        None \<Rightarrow> Inl SyntaxError
                      | Some parsed \<Rightarrow>
                          (if json_truthy (Some parsed)
                           then (case get_prop parsed ''rate'' of
                                   Some (JNum n) \<Rightarrow> Inr (Some n)
                                 | _ \<Rightarrow> Inr None)
                           else Inr None))
                 | _ \<Rightarrow> Inl TypeError)))"

text \<open>
  The state of the outside world is the list of requests sent so far, as (url, prompt).
  \<^verbatim>\<open>getAiRateSuggestion\<close> returns null without a request when the key is falsy, and its
  \<^verbatim>\<open>catch\<close> turns every exception of the \<^verbatim>\<open>try\<close> block into null.
\<close>

type_synonym net_log = "(string \<times> string) list"

definition getAiRateSuggestion :: "runtime \<Rightarrow> net_log \<Rightarrow> string \<Rightarrow> string \<Rightarrow> string option
    \<Rightarrow> (js_error + jsnum option) \<times> net_log" where
  "getAiRateSuggestion rt sent description u geminiApiKey =
     (case geminiApiKey of
        None \<Rightarrow> (Inr None, sent)
      | Some k \<Rightarrow>
          if k = [] then (Inr None, sent)
          else (let prompt = prompt_of description u;
                    url = geminiApiUrl k;
                    response = axiosPost rt (length sent) url prompt;
                    sent' = sent @ [(url, prompt)]
                in case ai_try rt response of
                     Inl error \<Rightarrow> (Inr None, sent')
                   | Inr r \<Rightarrow> (Inr r, sent')))"

section \<open>Estimation orchestrator\<close>

record priced_item =
  item_no :: string
  description :: string
  quantity :: jsnum
  unit :: string
  rate :: "jsnum option"
  total :: "jsnum option"
  isAiSuggestion :: bool
  source :: string

text \<open>The four fields read from a row.\<close>

definition row_item_no :: "runtime \<Rightarrow> jsval list \<Rightarrow> string" where
  "row_item_no rt row = trim (string_or_empty rt (cell row 0))"

definition row_description :: "runtime \<Rightarrow> jsval list \<Rightarrow> string" where
  "row_description rt row = trim (string_or_empty rt (cell row 1))"

definition row_quantity :: "runtime \<Rightarrow> jsval list \<Rightarrow> jsnum" where
  "row_quantity rt row = parseFloat rt (cell row 2)"

definition row_unit :: "runtime \<Rightarrow> jsval list \<Rightarrow> string" where
  "row_unit rt row = toLowerCase (trim (string_or_empty rt (cell row 3)))"

text \<open>
  Part C of the loop body: the rate, the flag and the source. A local match with a
  positive score gives the catalog rate; otherwise the advisor is asked through the
  limiter. The call \<^verbatim>\<open>aiLimiter.add(task)\<close> settles as the task does (section Rate
  limiter), so here it is the task's outcome; a rejection is thrown by \<^verbatim>\<open>await\<close>.
\<close>

definition ask_advisor :: "runtime \<Rightarrow> string option \<Rightarrow> net_log \<Rightarrow> string \<Rightarrow> string
    \<Rightarrow> (js_error + jsnum option \<times> bool \<times> string) \<times> net_log" where
  "ask_advisor rt geminiApiKey sent desc u =
     (case getAiRateSuggestion rt sent desc u geminiApiKey of
        (Inl e, sent') \<Rightarrow> (Inl e, sent')
      | (Inr (Some aiRate), sent') \<Rightarrow> (Inr (Some aiRate, True, ''AI Estimate''), sent')
      | (Inr None, sent') \<Rightarrow> (Inr (None, False, ''Manual''), sent'))"

definition choose_rate :: "runtime \<Rightarrow> rate_row list \<Rightarrow> string option \<Rightarrow> net_log \<Rightarrow> string \<Rightarrow> string
    \<Rightarrow> (js_error + jsnum option \<times> bool \<times> string) \<times> net_log" where
  "choose_rate rt ratesData geminiApiKey sent desc u =
     (case fuzzy_match desc u ratesData of
        Inl e \<Rightarrow> (Inl e, sent)
      | Inr (bestMatch, highestScore) \<Rightarrow>
          (case bestMatch of
             Some r \<Rightarrow>
               if highestScore > 0
               then (Inr (Some (parseFloat rt (r_rate_value r)), False, ''Database''), sent)
               else ask_advisor rt geminiApiKey sent desc u
           | None \<Rightarrow> ask_advisor rt geminiApiKey sent desc u))"

text \<open>One iteration of the loop over the rows. \<open>Inr None\<close> is \<^verbatim>\<open>continue\<close>.\<close>

definition process_row :: "runtime \<Rightarrow> rate_row list \<Rightarrow> string option \<Rightarrow> net_log \<Rightarrow> jsval list
    \<Rightarrow> (js_error + priced_item option) \<times> net_log" where
  "process_row rt ratesData geminiApiKey sent row =
     (let itemNo = row_item_no rt row;
          desc = row_description rt row;
          qty = row_quantity rt row;
          u = row_unit rt row
      in if desc = [] \<or> isNaN qty \<or> u = [] then (Inr None, sent)
         else (case choose_rate rt ratesData geminiApiKey sent desc u of
                 (Inl e, sent') \<Rightarrow> (Inl e, sent')
               | (Inr (finalRate, isAi, src), sent') \<Rightarrow>
                   (Inr (Some \<lparr> item_no = itemNo, description = desc, quantity = qty, unit = u,
                          rate = finalRate,
                          total = (case finalRate of None \<Rightarrow> None | Some r \<Rightarrow> Some (num_mul r qty)),
                          isAiSuggestion = isAi, source = src \<rparr>), sent')))"

text \<open>The loop: \<^verbatim>\<open>projectTotal += finalTotal\<close> when there is a rate, then the push.\<close>

fun process_rows :: "runtime \<Rightarrow> rate_row list \<Rightarrow> string option
    \<Rightarrow> net_log \<times> priced_item list \<times> jsnum \<Rightarrow> jsval list list
    \<Rightarrow> (js_error + priced_item list \<times> jsnum) \<times> net_log" where
  "process_rows rt ratesData key (sent, processedItems, projectTotal) [] =
     (Inr (processedItems, projectTotal), sent)"
| "process_rows rt ratesData key (sent, processedItems, projectTotal) (row # rows) =
     (case process_row rt ratesData key sent row of
        (Inl e, sent') \<Rightarrow> (Inl e, sent')
      | (Inr None, sent') \<Rightarrow> process_rows rt ratesData key (sent', processedItems, projectTotal) rows
      | (Inr (Some it), sent') \<Rightarrow>
          process_rows rt ratesData key
            (sent', processedItems @ [it],
             (case total it of None \<Rightarrow> projectTotal | Some t \<Rightarrow> num_add projectTotal t))
            rows)"

text \<open>
  \<^verbatim>\<open>parseAndMatchBOQ\<close>: the whole body is inside \<^verbatim>\<open>try\<close>, and the \<^verbatim>\<open>catch\<close> returns
  the empty result. \<^verbatim>\<open>boqData.slice(1)\<close> skips the header row. \<open>Inl\<close> would be a
  rejected promise.
\<close>

definition parseAndMatchBOQ_try :: "runtime \<Rightarrow> net_log \<Rightarrow> string \<Rightarrow> rate_row list \<Rightarrow> string option
    \<Rightarrow> (js_error + priced_item list \<times> jsnum) \<times> net_log" where
  "parseAndMatchBOQ_try rt sent fileBuffer ratesData geminiApiKey =
     (case xlsxRows rt fileBuffer of
        None \<Rightarrow> (Inl SyntaxError, sent)
      | Some boqData \<Rightarrow>
          process_rows rt ratesData geminiApiKey (sent, [], Num 0) (drop 1 boqData))"

definition parseAndMatchBOQ :: "runtime \<Rightarrow> net_log \<Rightarrow> string \<Rightarrow> rate_row list \<Rightarrow> string option
    \<Rightarrow> (js_error + priced_item list \<times> jsnum) \<times> net_log" where
  "parseAndMatchBOQ rt sent fileBuffer ratesData geminiApiKey =
     (case parseAndMatchBOQ_try rt sent fileBuffer ratesData geminiApiKey of
        (Inl error, sent') \<Rightarrow> (Inr ([], Num 0), sent')
      | (Inr result, sent') \<Rightarrow> (Inr result, sent'))"

section \<open>Persistence: the upload-boq handler\<close>

text \<open>
  The relational store. \<^verbatim>\<open>boq_items\<close> has a serial \<^verbatim>\<open>id\<close>, whose sequence
  \<^verbatim>\<open>TRUNCATE ... RESTART IDENTITY\<close> resets; \<open>others\<close> is every other table. The insert
  statement names the columns description, quantity, unit, rate and total.
\<close>

record stored_item =
  s_id :: nat
  s_description :: string
  s_quantity :: jsnum
  s_unit :: string
  s_rate :: "jsnum option"
  s_total :: "jsnum option"

record 'o database =
  rates :: "rate_row list"
  boq_items :: "stored_item list"
  boq_items_id_seq :: nat
  others :: 'o

text \<open>
  A client of the pool: the state its statements see, and the state at \<^verbatim>\<open>BEGIN\<close> while a
  transaction is open. \<^verbatim>\<open>ROLLBACK\<close> goes back to it; outside a transaction it does
  nothing.
\<close>

record 'o client =
  store :: "'o database"
  snapshot :: "'o database option"





definition sql_insert :: "priced_item \<Rightarrow> 'o client \<Rightarrow> 'o client" where
  "sql_insert it c =
     c\<lparr>store := (store c)
        \<lparr>boq_items := boq_items (store c) @
           [\<lparr>s_id = boq_items_id_seq (store c), s_description = description it,
             s_quantity = quantity it, s_unit = unit it, s_rate = rate it, s_total = total it\<rparr>],
         boq_items_id_seq := Suc (boq_items_id_seq (store c))\<rparr>\<rparr>"

datatype handler_error = QueryFailed nat | Rejected js_error

datatype response = Status400 | Status500 handler_error | Json200 "priced_item list" jsnum





section \<open>Rate limiter\<close>

text \<open>
  The class \<^verbatim>\<open>RateLimiter\<close>. A task is known by a label; its work and its result are
  the environment's. The queue holds the labels of the waiting tasks.
\<close>

record limiter =
  queue :: "nat list"
  isProcessing :: bool
  minDelayMs :: nat

datatype outcome = Fulfilled | Failed

text \<open>
  The limiter inside the event loop: the clock in milliseconds, the task that
  \<^verbatim>\<open>process\<close> awaits, the time at which the callback of \<^verbatim>\<open>setTimeout\<close> is due, and
  three histories: the labels in the order of \<^verbatim>\<open>add\<close>, the tasks started with their
  start times, the promises settled with outcome and time.
\<close>

record loop_state =
  lim :: limiter
  clock :: nat
  running :: "nat option"
  timer :: "nat option"
  enqueued :: "nat list"
  started :: "(nat \<times> nat) list"
  settled :: "(nat \<times> outcome \<times> nat) list"

text \<open>
  \<^verbatim>\<open>process()\<close> up to its \<^verbatim>\<open>await\<close>: nothing when busy or when the queue is empty;
  otherwise the flag is set, the first entry is shifted off the queue and its task is
  called.
\<close>

definition process :: "loop_state \<Rightarrow> loop_state" where
  "process s =
     (if isProcessing (lim s) \<or> length (queue (lim s)) = 0 then s
      else (case queue (lim s) of
              [] \<Rightarrow> s
            | task # rest \<Rightarrow>
                s\<lparr>lim := (lim s)\<lparr>isProcessing := True, queue := rest\<rparr>,
                  running := Some task,
                  started := started s @ [(task, clock s)]\<rparr>))"

text \<open>\<^verbatim>\<open>add(task)\<close>: push, then \<^verbatim>\<open>process()\<close>.\<close>

definition add :: "nat \<Rightarrow> loop_state \<Rightarrow> loop_state" where
  "add task s =
     process (s\<lparr>lim := (lim s)\<lparr>queue := queue (lim s) @ [task]\<rparr>, enqueued := enqueued s @ [task]\<rparr>)"

text \<open>
  The rest of \<^verbatim>\<open>process()\<close>, run when the awaited task settles: \<^verbatim>\<open>resolve\<close> or
  \<^verbatim>\<open>reject\<close> for this task's promise, then \<^verbatim>\<open>finally\<close> arms the timer.
\<close>

definition task_settles :: "outcome \<Rightarrow> loop_state \<Rightarrow> loop_state option" where
  "task_settles out s =
     (case running s of
        None \<Rightarrow> None
      | Some task \<Rightarrow>
          Some (s\<lparr>settled := settled s @ [(task, out, clock s)],
                  running := None,
                  timer := Some (clock s + minDelayMs (lim s))\<rparr>))"

text \<open>The callback of \<^verbatim>\<open>setTimeout\<close>; the event loop runs it no earlier than it is due.\<close>

definition timer_fires :: "loop_state \<Rightarrow> loop_state option" where
  "timer_fires s =
     (case timer s of
        None \<Rightarrow> None
      | Some due \<Rightarrow>
          if clock s < due then None
          else Some (process (s\<lparr>lim := (lim s)\<lparr>isProcessing := False\<rparr>, timer := None\<rparr>)))"

text \<open>
  What happens in the event loop, each with its time: a caller adds a task, the running
  task settles, the timer fires. Time does not go back. \<open>None\<close>: the event cannot
  happen in that state.
\<close>

datatype event = Add nat nat | Settle nat outcome | Fire nat

fun event_time :: "event \<Rightarrow> nat" where
  "event_time (Add t task) = t"
| "event_time (Settle t out) = t"
| "event_time (Fire t) = t"

definition step :: "event \<Rightarrow> loop_state \<Rightarrow> loop_state option" where
  "step e s =
     (if event_time e < clock s then None
      else (let s' = s\<lparr>clock := event_time e\<rparr> in
            case e of
              Add t task \<Rightarrow> Some (add task s')
            | Settle t out \<Rightarrow> task_settles out s'
            | Fire t \<Rightarrow> timer_fires s'))"

fun run :: "event list \<Rightarrow> loop_state \<Rightarrow> loop_state option" where
  "run [] s = Some s"
| "run (e # es) s = (case step e s of None \<Rightarrow> None | Some s' \<Rightarrow> run es s')"

definition new_RateLimiter :: "nat \<Rightarrow> loop_state" where
  "new_RateLimiter delay =
     \<lparr>lim = \<lparr>queue = [], isProcessing = False, minDelayMs = delay\<rparr>,
      clock = 0, running = None, timer = None, enqueued = [], started = [], settled = []\<rparr>"

definition aiLimiter :: loop_state where
  "aiLimiter = new_RateLimiter 4500"

text \<open>
  The invariant of the limiter in the event loop, for the delay \<open>C\<close>: the tasks
  started and the tasks waiting are the tasks added, in order; the promises settled and
  the task running are the tasks started, in order; the flag is set exactly while a
  task runs or the timer is armed, never both; no start lies in the future; a task
  settles after its start; the next start is at least \<open>C\<close> after the settling before
  it; and the two facts about the timer and the idle state that carry this through.
\<close>

definition limiter_inv :: "nat \<Rightarrow> loop_state \<Rightarrow> bool" where
  "limiter_inv C s =
     (minDelayMs (lim s) = C \<and>
      map fst (started s) @ queue (lim s) = enqueued s \<and>
      map fst (settled s) @ (case running s of None \<Rightarrow> [] | Some t \<Rightarrow> [t]) = map fst (started s) \<and>
      (isProcessing (lim s) \<longleftrightarrow> running s \<noteq> None \<or> timer s \<noteq> None) \<and>
      (running s = None \<or> timer s = None) \<and>
      (\<forall>a \<in> set (started s). snd a \<le> clock s) \<and>
      (\<forall>i < length (settled s). snd (started s ! i) \<le> snd (snd (settled s ! i))) \<and>
      (\<forall>i. Suc i < length (started s) \<longrightarrow>
         snd (snd (settled s ! i)) + C \<le> snd (started s ! Suc i)) \<and>
      (\<forall>due. timer s = Some due \<longrightarrow> (\<forall>e \<in> set (settled s). snd (snd e) + C \<le> due)) \<and>
      (\<not> isProcessing (lim s) \<longrightarrow> (\<forall>e \<in> set (settled s). snd (snd e) + C \<le> clock s)))"

section \<open>Notions of the specification\<close>

text \<open>The sum of the totals of a list of items; an item without a total adds 0.\<close>

definition contribution :: "priced_item \<Rightarrow> jsnum" where
  "contribution it = (case total it of None \<Rightarrow> Num 0 | Some t \<Rightarrow> t)"

definition sum_totals :: "priced_item list \<Rightarrow> jsnum" where
  "sum_totals its = foldr num_add (map contribution its) (Num 0)"

text \<open>The test of the loop body that lets a row through.\<close>

definition valid_row :: "runtime \<Rightarrow> jsval list \<Rightarrow> bool" where
  "valid_row rt row =
     (row_description rt row \<noteq> [] \<and> \<not> isNaN (row_quantity rt row) \<and> row_unit rt row \<noteq> [])"

text \<open>The catalog the data model describes: every unit is a string.\<close>

definition units_are_strings :: "rate_row list \<Rightarrow> bool" where
  "units_are_strings ratesData = (\<forall>r \<in> set ratesData. \<exists>s. r_unit r = Str s)"

text \<open>A row of the \<^verbatim>\<open>rates\<close> table whose unit is the unit \<open>u\<close> of a row, up to case.\<close>

definition unit_matches :: "string \<Rightarrow> rate_row \<Rightarrow> bool" where
  "unit_matches u r = (case r_unit r of Str s \<Rightarrow> toLowerCase s = u | _ \<Rightarrow> False)"

text \<open>What an item records of its row, and what the loop reads from the row.\<close>

definition item_fields :: "priced_item \<Rightarrow> string \<times> string \<times> jsnum \<times> string" where
  "item_fields it = (item_no it, description it, quantity it, unit it)"

definition row_fields :: "runtime \<Rightarrow> jsval list \<Rightarrow> string \<times> string \<times> jsnum \<times> string" where
  "row_fields rt row =
     (row_item_no rt row, row_description rt row, row_quantity rt row, row_unit rt row)"

text \<open>
  The specification's test for a row: a description, a quantity that is a number
  greater than or equal to 0, a unit.
\<close>

definition spec_valid_row :: "runtime \<Rightarrow> jsval list \<Rightarrow> bool" where
  "spec_valid_row rt row =
     (row_description rt row \<noteq> [] \<and>
      (case row_quantity rt row of Num q \<Rightarrow> 0 \<le> q | NaN \<Rightarrow> False) \<and>
      row_unit rt row \<noteq> [])"

text \<open>
  A catalog match was found: the matcher returns a candidate with a positive score.
  The advisor returns a suggestion: the adapter's result is a number.
\<close>

definition local_match :: "string \<Rightarrow> string \<Rightarrow> rate_row list \<Rightarrow> bool" where
  "local_match desc u ratesData =
     (case fuzzy_match desc u ratesData of Inr (Some r, hs) \<Rightarrow> 0 < hs | _ \<Rightarrow> False)"

definition advisor_suggests :: "runtime \<Rightarrow> net_log \<Rightarrow> string \<Rightarrow> string \<Rightarrow> string option \<Rightarrow> bool" where
  "advisor_suggests rt sent desc u key =
     (case fst (getAiRateSuggestion rt sent desc u key) of Inr (Some n) \<Rightarrow> True | _ \<Rightarrow> False)"

text \<open>
  The invariant of a priced item, for the requests \<open>sent0\<close> made before its row: a rate
  if and only if a catalog match or a suggestion; without a catalog match the rate is
  what the adapter returned; without a rate no total, no flag, and the source Manual.
\<close>

definition rate_invariant :: "runtime \<Rightarrow> rate_row list \<Rightarrow> string option \<Rightarrow> net_log
    \<Rightarrow> priced_item \<Rightarrow> bool" where
  "rate_invariant rt ratesData key sent0 it =
     ((rate it \<noteq> None \<longleftrightarrow>
         local_match (description it) (unit it) ratesData \<or>
         advisor_suggests rt sent0 (description it) (unit it) key) \<and>
      (\<not> local_match (description it) (unit it) ratesData \<longrightarrow>
         fst (getAiRateSuggestion rt sent0 (description it) (unit it) key) = Inr (rate it)) \<and>
      (rate it = None \<longrightarrow> total it = None \<and> \<not> isAiSuggestion it \<and> source it = ''Manual''))"


section \<open>Sample inputs\<close>

definition header_row :: "jsval list" where
  "header_row = [Str ''Item No'', Str ''Description'', Str ''Quantity'', Str ''Unit'']"

definition negative_row :: "jsval list" where
  "negative_row = [Str ''4'', Str ''Brick Masonry Walls'', Number (Num (- 5)), Str ''m2'']"

definition brick_row :: "jsval list" where
  "brick_row = [Str ''1'', Str ''Brick Masonry Walls'', Number (Num 850), Str '' M2 '']"

definition solar_row :: "jsval list" where
  "solar_row = [Str ''2'', Str ''Install solar panel array'', Number (Num 10), Str ''unit'']"

definition blank_row :: "jsval list" where
  "blank_row = [Str ''3'', Str [], Number (Num 10), Str ''m2'']"

definition sample_runtime :: runtime where
  "sample_runtime =
     \<lparr> numToString = (\<lambda>r. ''0''), parseFloatStr = (\<lambda>s. if s = ''45.50'' then Num 45.5 else NaN),
       jsonParse = (\<lambda>s. None),
       xlsxRows = (\<lambda>b. if b = ''garbage'' then None
          else if b = ''negative'' then Some [header_row, negative_row]
          else if b = ''late'' then Some [header_row, blank_row, brick_row]
          else Some [header_row, brick_row, solar_row, blank_row]),
       axiosPost = (\<lambda>n u p. HttpFail) \<rparr>"

definition sample_rates :: "rate_row list" where
  "sample_rates =
     [\<lparr> r_item_name = Str ''Brickwork'', r_unit = Str ''m2'', r_rate_value = Str ''45.50'',
        r_keywords = Str ''brick wall masonry'' \<rparr>]"


definition negative_item :: priced_item where
  "negative_item =
     \<lparr>item_no = ''4'', description = ''Brick Masonry Walls'', quantity = Num (- 5), unit = ''m2'',
      rate = Some (Num 45.5), total = Some (Num (- 227.5)), isAiSuggestion = False,
      source = ''Database''\<rparr>"

definition tie_rates :: "rate_row list" where
  "tie_rates =
     [\<lparr> r_item_name = Str ''Excavation'', r_unit = Str ''m3'', r_rate_value = Str ''45.50'',
        r_keywords = Str ''brick masonry walls'' \<rparr>,
      \<lparr> r_item_name = Str ''Brickwork'', r_unit = Str ''m2'', r_rate_value = Str ''45.50'',
        r_keywords = Str ''brick wall masonry'' \<rparr>,
      \<lparr> r_item_name = Str ''Masonry'', r_unit = Str ''M2'', r_rate_value = Str ''45.50'',
        r_keywords = Undefined \<rparr>]"

definition reply_text :: string where
  "reply_text =
     ''```json'' @ NL @ ''{'' @ [CHR 0x22] @ ''rate'' @ [CHR 0x22] @ '': 15000}'' @ NL @ ''```''"

definition reply_body :: json where
  "reply_body =
     JObj [(''candidates'',
       JArr [JObj [(''content'', JObj [(''parts'', JArr [JObj [(''text'', JStr reply_text)]])])]])]"

definition advisor_runtime :: runtime where
  "advisor_runtime =
     \<lparr> numToString = (\<lambda>r. ''0''), parseFloatStr = (\<lambda>s. NaN),
       jsonParse = (\<lambda>s. if s = ''{'' @ [CHR 0x22] @ ''rate'' @ [CHR 0x22] @ '': 15000}''
                         then Some (JObj [(''rate'', JNum (Num 15000))]) else None),
       xlsxRows = (\<lambda>b. Some [header_row, solar_row]),
       axiosPost = (\<lambda>n u p. HttpOk (Some reply_body)) \<rparr>"


definition sample_events :: "event list" where
  "sample_events =
     [Add 0 1, Add 10 2, Add 20 3, Settle 100 Failed, Fire 4600, Settle 4700 Fulfilled,
      Fire 9200]"

definition sample_final :: loop_state where
  "sample_final =
     \<lparr>lim = \<lparr>queue = [], isProcessing = True, minDelayMs = 4500\<rparr>,
      clock = 9200, running = Some 3, timer = None, enqueued = [1, 2, 3],
      started = [(1, 0), (2, 4600), (3, 9200)],
      settled = [(1, Failed, 100), (2, Fulfilled, 4700)]\<rparr>"

definition sample_items :: "priced_item list" where
  "sample_items =
     [\<lparr>item_no = ''1'', description = ''Brick Masonry Walls'', quantity = Num 850, unit = ''m2'',
       rate = Some (Num 45.5), total = Some (Num 38675), isAiSuggestion = False,
       source = ''Database''\<rparr>,
      \<lparr>item_no = ''2'', description = ''Install solar panel array'', quantity = Num 10,
       unit = ''unit'', rate = None, total = None, isAiSuggestion = False, source = ''Manual''\<rparr>]"

section \<open>The project total\<close>



lemma num_add_zero [simp]: "num_add a (Num 0) = a" "num_add (Num 0) a = a"
  by (cases a; simp)+

lemma sum_totals_Nil [simp]: "sum_totals [] = Num 0"
  by (simp add: sum_totals_def)








lemma parseAndMatchBOQ_cases:
  assumes "parseAndMatchBOQ rt sent buf cat key = (Inr (its, tot), sent')"
  shows "(its = [] \<and> tot = Num 0) \<or>
         (\<exists>boqData. xlsxRows rt buf = Some boqData \<and>
            process_rows rt cat key (sent, [], Num 0) (drop 1 boqData) = (Inr (its, tot), sent'))"
  using assms
  by (auto simp: parseAndMatchBOQ_def parseAndMatchBOQ_try_def
           split: prod.splits sum.splits option.splits)



section \<open>Unparsable files and exceptions\<close>

text \<open>
  Claim C8. For a file that \<^verbatim>\<open>xlsx\<close> cannot read, \<^verbatim>\<open>parseAndMatchBOQ\<close> resolves with
  an empty item list and \<^verbatim>\<open>projectTotal\<close> 0; no error is raised and no request is sent.
\<close>

theorem unparsable_file_gives_empty_result:
  "xlsxRows rt fileBuffer = None
   \<Longrightarrow> parseAndMatchBOQ rt sent fileBuffer ratesData key = (Inr ([], Num 0), sent)"
  by (simp add: parseAndMatchBOQ_def parseAndMatchBOQ_try_def)

theorem unparsable_file_gives_empty_result_witness:
  "xlsxRows sample_runtime ''garbage'' = None \<and>
   parseAndMatchBOQ sample_runtime [] ''garbage'' sample_rates None = (Inr ([], Num 0), [])"
proof -
  have h: "xlsxRows sample_runtime ''garbage'' = None"
    by (simp add: sample_runtime_def)
  from unparsable_file_gives_empty_result [OF h] h show ?thesis by blast
qed

section \<open>Which rows are priced\<close>

lemma getAiRateSuggestion_resolves:
  "\<exists>r sent'. getAiRateSuggestion rt sent d u key = (Inr r, sent')"
  by (auto simp: getAiRateSuggestion_def Let_def split: option.splits sum.splits)

lemma relevant_rates_typed:
  "units_are_strings cat \<Longrightarrow> relevant_rates u cat = Inr (filter (unit_matches u) cat)"
  by (induction cat) (auto simp: units_are_strings_def unit_matches_def)



lemma fuzzy_match_typed:
  "units_are_strings cat \<Longrightarrow> \<exists>best hs. fuzzy_match d u cat = Inr (best, hs)"
  by (simp add: fuzzy_match_def relevant_rates_typed)

lemma ask_advisor_resolves:
  "\<exists>r sent'. ask_advisor rt key sent d u = (Inr r, sent')"
  using getAiRateSuggestion_resolves [of rt sent d u key]
  by (auto simp: ask_advisor_def split: option.splits)

lemma choose_rate_typed:
  "units_are_strings cat \<Longrightarrow> \<exists>r sent'. choose_rate rt cat key sent d u = (Inr r, sent')"
  using fuzzy_match_typed [of cat d u] ask_advisor_resolves [of rt key sent d u]
  by (auto simp: choose_rate_def split: option.splits)


lemma process_row_invalid:
  "\<not> valid_row rt row \<Longrightarrow> process_row rt cat key sent row = (Inr None, sent)"
  by (auto simp: process_row_def valid_row_def Let_def)


lemma process_row_typed:
  assumes "valid_row rt row" "units_are_strings cat"
  shows "\<exists>it sent'. process_row rt cat key sent row = (Inr (Some it), sent')
           \<and> item_fields it = row_fields rt row"
proof -
  from choose_rate_typed [OF assms(2)] obtain r sent' where
    "choose_rate rt cat key sent (row_description rt row) (row_unit rt row) = (Inr r, sent')"
    by blast
  with assms(1) show ?thesis
    by (cases r) (auto simp: process_row_def valid_row_def Let_def item_fields_def row_fields_def)
qed


lemma process_rows_typed:
  assumes "units_are_strings cat"
  shows "\<exists>its' tot' sent'. process_rows rt cat key (sent, its, tot) rows = (Inr (its', tot'), sent')
           \<and> map item_fields its' = map item_fields its @ map (row_fields rt) (filter (valid_row rt) rows)"
proof (induction rows arbitrary: sent its tot)
  case Nil
  show ?case by simp
next
  case (Cons row rows)
  show ?case
  proof (cases "valid_row rt row")
    case False
    with Cons.IH [of sent its tot] show ?thesis by (simp add: process_row_invalid)
  next
    case True
    from process_row_typed [OF True assms] obtain it sent1 where
      p: "process_row rt cat key sent row = (Inr (Some it), sent1)"
      and f: "item_fields it = row_fields rt row"
      by blast
    from Cons.IH [of sent1 "its @ [it]"
        "case total it of None \<Rightarrow> tot | Some t \<Rightarrow> num_add tot t"]
    show ?thesis using p f True by auto
  qed
qed

text \<open>
  Claim C4, as the specification states it, fails: the loop tests the quantity with
  \<^verbatim>\<open>isNaN\<close> only, so a row with a negative quantity is priced.
\<close>

theorem negative_quantity_row_is_priced:
  "xlsxRows sample_runtime ''negative'' = Some [header_row, negative_row]
   \<and> \<not> spec_valid_row sample_runtime negative_row
   \<and> parseAndMatchBOQ sample_runtime [] ''negative'' sample_rates None
       = (Inr ([negative_item], Num (- 227.5)), [])"
  by code_simp

text \<open>
  Claim C4, amended. For a sheet that \<^verbatim>\<open>xlsx\<close> reads and a catalog whose units are
  strings, row 0 is skipped and the items are, in order, the later rows whose
  description is not empty, whose quantity \<^verbatim>\<open>parseFloat\<close> reads as a number (of either
  sign) and whose unit is not empty; every other row is dropped, and the result holds
  nothing about it.
\<close>

theorem items_are_the_valid_rows:
  assumes "xlsxRows rt fileBuffer = Some boqData" and "units_are_strings ratesData"
  shows "\<exists>processedItems projectTotal sent'.
           parseAndMatchBOQ rt sent fileBuffer ratesData key
             = (Inr (processedItems, projectTotal), sent') \<and>
           map item_fields processedItems
             = map (row_fields rt) (filter (valid_row rt) (drop 1 boqData))"
proof -
  from process_rows_typed [OF assms(2), of rt key sent "[]" "Num 0" "drop 1 boqData"]
  obtain its tot sent' where
    "process_rows rt ratesData key (sent, [], Num 0) (drop 1 boqData) = (Inr (its, tot), sent')"
    and "map item_fields its = map (row_fields rt) (filter (valid_row rt) (drop 1 boqData))"
    by auto
  with assms(1) show ?thesis
    by (simp add: parseAndMatchBOQ_def parseAndMatchBOQ_try_def)
qed

theorem items_are_the_valid_rows_witness:
  "xlsxRows sample_runtime ''negative'' = Some [header_row, negative_row]
   \<and> units_are_strings sample_rates
   \<and> valid_row sample_runtime negative_row
   \<and> (\<exists>processedItems projectTotal sent'.
        parseAndMatchBOQ sample_runtime [] ''negative'' sample_rates None
          = (Inr (processedItems, projectTotal), sent') \<and>
        map item_fields processedItems = [row_fields sample_runtime negative_row])"
proof -
  have x: "xlsxRows sample_runtime ''negative'' = Some [header_row, negative_row]"
    by (simp add: sample_runtime_def)
  have u: "units_are_strings sample_rates"
    by (simp add: units_are_strings_def sample_rates_def)
  have v: "valid_row sample_runtime negative_row"
    by code_simp
  from items_are_the_valid_rows [OF x u, of "[]" None] v x u show ?thesis
    by simp
qed




section \<open>When an item has a rate\<close>

lemma ask_advisor_char:
  assumes "ask_advisor rt key sent d u = (Inr (fr, ai, src), sent')"
  shows "fst (getAiRateSuggestion rt sent d u key) = Inr fr \<and>
         (fr \<noteq> None \<longleftrightarrow> advisor_suggests rt sent d u key) \<and>
         (fr = None \<longrightarrow> \<not> ai \<and> src = ''Manual'')"
  using assms
  by (auto simp: ask_advisor_def advisor_suggests_def split: prod.splits sum.splits option.splits)

lemma choose_rate_char:
  assumes "choose_rate rt cat key sent d u = (Inr (fr, ai, src), sent')"
  shows "(fr \<noteq> None \<longleftrightarrow> local_match d u cat \<or> advisor_suggests rt sent d u key) \<and>
         (\<not> local_match d u cat \<longrightarrow> fst (getAiRateSuggestion rt sent d u key) = Inr fr) \<and>
         (fr = None \<longrightarrow> \<not> ai \<and> src = ''Manual'')"
proof (cases "local_match d u cat")
  case True
  with assms show ?thesis
    by (auto simp: choose_rate_def local_match_def split: sum.splits prod.splits option.splits if_splits)
next
  case False
  with assms have "ask_advisor rt key sent d u = (Inr (fr, ai, src), sent')"
    by (auto simp: choose_rate_def local_match_def split: sum.splits prod.splits option.splits if_splits)
  from ask_advisor_char [OF this] False show ?thesis by simp
qed

lemma process_row_rate_invariant:
  assumes "process_row rt cat key sent row = (Inr (Some it), sent')"
  shows "rate_invariant rt cat key sent it"
proof -
  from assms obtain fr ai src where
    c: "choose_rate rt cat key sent (row_description rt row) (row_unit rt row) = (Inr (fr, ai, src), sent')"
    and i: "it = \<lparr> item_no = row_item_no rt row, description = row_description rt row,
                  quantity = row_quantity rt row, unit = row_unit rt row, rate = fr,
                  total = (case fr of None \<Rightarrow> None | Some r \<Rightarrow> Some (num_mul r (row_quantity rt row))),
                  isAiSuggestion = ai, source = src \<rparr>"
    by (auto simp: process_row_def Let_def split: if_splits prod.splits sum.splits)
  from choose_rate_char [OF c] show ?thesis
    unfolding rate_invariant_def i by simp
qed

lemma process_rows_rate_invariant:
  assumes "process_rows rt cat key (sent, its, tot) rows = (Inr (its', tot'), sent')"
    and "it \<in> set its'"
  shows "it \<in> set its \<or> (\<exists>sent0. rate_invariant rt cat key sent0 it)"
  using assms
proof (induction rows arbitrary: sent its tot)
  case Nil
  then show ?case by auto
next
  case (Cons row rows)
  obtain r sent1 where pr: "process_row rt cat key sent row = (r, sent1)"
    by (cases "process_row rt cat key sent row")
  show ?case
  proof (cases r)
    case (Inl e)
    with Cons.prems pr show ?thesis by simp
  next
    case (Inr o_it)
    show ?thesis
    proof (cases o_it)
      case None
      with Cons.prems pr Inr
      have "process_rows rt cat key (sent1, its, tot) rows = (Inr (its', tot'), sent')" by simp
      from Cons.IH [OF this Cons.prems(2)] show ?thesis .
    next
      case (Some x)
      with Cons.prems pr Inr
      have "process_rows rt cat key
              (sent1, its @ [x], case total x of None \<Rightarrow> tot | Some t \<Rightarrow> num_add tot t) rows
            = (Inr (its', tot'), sent')" by simp
      from Cons.IH [OF this Cons.prems(2)]
      have "it \<in> set (its @ [x]) \<or> (\<exists>sent0. rate_invariant rt cat key sent0 it)" .
      moreover have "rate_invariant rt cat key sent x"
        using pr Inr Some by (intro process_row_rate_invariant [of rt cat key sent row x sent1]) simp
      ultimately show ?thesis by auto
    qed
  qed
qed

text \<open>
  Claim C2. For every item that \<^verbatim>\<open>parseAndMatchBOQ\<close> produces, the rate is not null
  if and only if the catalog gave a match with a positive score or the advisor returned
  a numeric suggestion for the row; in every other case rate and total are null, the
  flag \<^verbatim>\<open>isAiSuggestion\<close> is false and the source is Manual.
\<close>

theorem rate_nonnull_iff_matched_or_suggested:
  assumes "parseAndMatchBOQ rt sent fileBuffer ratesData key
             = (Inr (processedItems, projectTotal), sent')"
    and "it \<in> set processedItems"
  shows "\<exists>sent0.
           (rate it \<noteq> None \<longleftrightarrow>
              local_match (description it) (unit it) ratesData \<or>
              advisor_suggests rt sent0 (description it) (unit it) key) \<and>
           (\<not> local_match (description it) (unit it) ratesData \<longrightarrow>
              fst (getAiRateSuggestion rt sent0 (description it) (unit it) key) = Inr (rate it)) \<and>
           (rate it = None \<longrightarrow>
              total it = None \<and> \<not> isAiSuggestion it \<and> source it = ''Manual'')"
proof -
  from parseAndMatchBOQ_cases [OF assms(1)] assms(2)
  obtain boqData where
    "process_rows rt ratesData key (sent, [], Num 0) (drop 1 boqData)
     = (Inr (processedItems, projectTotal), sent')"
    by auto
  from process_rows_rate_invariant [OF this assms(2)]
  have "\<exists>sent0. rate_invariant rt ratesData key sent0 it" by simp
  then show ?thesis by (simp add: rate_invariant_def)
qed

theorem rate_nonnull_iff_matched_or_suggested_witness:
  "parseAndMatchBOQ sample_runtime [] ''boq'' sample_rates None
     = (Inr (sample_items, Num 38675), [])
   \<and> sample_items ! 1 \<in> set sample_items
   \<and> rate (sample_items ! 1) = None
   \<and> \<not> local_match (description (sample_items ! 1)) (unit (sample_items ! 1)) sample_rates
   \<and> (\<exists>sent0. \<not> advisor_suggests sample_runtime sent0
         (description (sample_items ! 1)) (unit (sample_items ! 1)) None)
   \<and> source (sample_items ! 1) = ''Manual''"
proof -
  have h: "parseAndMatchBOQ sample_runtime [] ''boq'' sample_rates None
           = (Inr (sample_items, Num 38675), [])"
    by code_simp
  have m: "sample_items ! 1 \<in> set sample_items"
    by (simp add: sample_items_def)
  have r: "rate (sample_items ! 1) = None"
    by (simp add: sample_items_def)
  from rate_nonnull_iff_matched_or_suggested [OF h m] r
  show ?thesis using h m by auto
qed

section \<open>The fuzzy matcher\<close>

lemma new_Set_foldl:
  "distinct acc \<Longrightarrow>
   distinct (foldl (\<lambda>acc x. if x \<in> set acc then acc else acc @ [x]) acc xs) \<and>
   set (foldl (\<lambda>acc x. if x \<in> set acc then acc else acc @ [x]) acc xs) = set acc \<union> set xs"
  by (induction xs arbitrary: acc) auto

lemma distinct_new_Set: "distinct (new_Set xs)"
  using new_Set_foldl [of "[]" xs] by (simp add: new_Set_def)

lemma set_new_Set: "set (new_Set xs) = set xs"
  using new_Set_foldl [of "[]" xs] by (simp add: new_Set_def)

lemma distinct_tokenize: "distinct (tokenize v)"
  by (cases v) (simp_all add: distinct_new_Set)

lemma score_fold:
  "distinct ts \<Longrightarrow>
   foldl (score_step N K) c ts = c + 2 * card (set ts \<inter> set N) + card (set ts \<inter> set K)"
proof (induction ts arbitrary: c)
  case Nil
  show ?case by simp
next
  case (Cons t ts)
  then have d: "distinct ts" and n: "t \<notin> set ts" by simp_all
  have a: "card (set (t # ts) \<inter> set N) = (if t \<in> set N then 1 else 0) + card (set ts \<inter> set N)"
    using n by (simp add: Int_insert_left)
  have b: "card (set (t # ts) \<inter> set K) = (if t \<in> set K then 1 else 0) + card (set ts \<inter> set K)"
    using n by (simp add: Int_insert_left)
  have s: "score_step N K c t = c + 2 * (if t \<in> set N then 1 else 0) + (if t \<in> set K then 1 else 0)"
    by (simp add: score_step_def Let_def)
  have "foldl (score_step N K) c (t # ts) = foldl (score_step N K) (score_step N K c t) ts"
    by simp
  also have "\<dots> = score_step N K c t + 2 * card (set ts \<inter> set N) + card (set ts \<inter> set K)"
    by (rule Cons.IH [OF d])
  finally have "foldl (score_step N K) c (t # ts)
      = score_step N K c t + 2 * card (set ts \<inter> set N) + card (set ts \<inter> set K)" .
  then show ?case
    by (simp only: a b s) simp
qed

lemma currentScore_card:
  "currentScore (tokenize v) r =
     2 * card (set (tokenize v) \<inter> set (tokenize (r_item_name r)))
     + card (set (tokenize v) \<inter> set (tokenize (r_keywords r)))"
  unfolding currentScore_def
  using score_fold [OF distinct_tokenize, of _ _ 0 v] by simp

lemma best_loop_bound:
  "best_loop dts (b, h) rs = (b', h') \<Longrightarrow>
   h \<le> h' \<and> (\<forall>r \<in> set rs. currentScore dts r \<le> h')"
proof (induction rs arbitrary: b h)
  case Nil
  then show ?case by simp
next
  case (Cons r rs)
  show ?case
  proof (cases "currentScore dts r > h")
    case True
    with Cons.prems have "best_loop dts (Some r, currentScore dts r) rs = (b', h')" by simp
    from Cons.IH [OF this] True show ?thesis by auto
  next
    case False
    with Cons.prems have "best_loop dts (b, h) rs = (b', h')" by simp
    from Cons.IH [OF this] False show ?thesis by auto
  qed
qed

lemma best_loop_char:
  "best_loop dts (b, h) rs = (b', h') \<Longrightarrow>
   (b' = b \<and> h' = h \<and> (\<forall>r \<in> set rs. currentScore dts r \<le> h)) \<or>
   (\<exists>pre r post. rs = pre @ r # post \<and> b' = Some r \<and> currentScore dts r = h' \<and> h < h' \<and>
      (\<forall>x \<in> set pre. currentScore dts x < h') \<and> (\<forall>x \<in> set post. currentScore dts x \<le> h'))"
proof (induction rs arbitrary: b h)
  case Nil
  then show ?case by simp
next
  case (Cons r rs)
  show ?case
  proof (cases "currentScore dts r > h")
    case True
    with Cons.prems have l: "best_loop dts (Some r, currentScore dts r) rs = (b', h')" by simp
    from Cons.IH [OF l] show ?thesis
    proof
      assume "b' = Some r \<and> h' = currentScore dts r \<and> (\<forall>x \<in> set rs. currentScore dts x \<le> currentScore dts r)"
      then have "r # rs = [] @ r # rs \<and> b' = Some r \<and> currentScore dts r = h' \<and> h < h' \<and>
          (\<forall>x \<in> set []. currentScore dts x < h') \<and> (\<forall>x \<in> set rs. currentScore dts x \<le> h')"
        using True by simp
      then show ?thesis by blast
    next
      assume "\<exists>pre r' post. rs = pre @ r' # post \<and> b' = Some r' \<and> currentScore dts r' = h' \<and>
          currentScore dts r < h' \<and>
          (\<forall>x \<in> set pre. currentScore dts x < h') \<and> (\<forall>x \<in> set post. currentScore dts x \<le> h')"
      then obtain pre r' post where
        p: "rs = pre @ r' # post" "b' = Some r'" "currentScore dts r' = h'"
           "currentScore dts r < h'"
           "\<forall>x \<in> set pre. currentScore dts x < h'" "\<forall>x \<in> set post. currentScore dts x \<le> h'"
        by blast
      then have "r # rs = (r # pre) @ r' # post \<and> b' = Some r' \<and> currentScore dts r' = h' \<and> h < h' \<and>
          (\<forall>x \<in> set (r # pre). currentScore dts x < h') \<and> (\<forall>x \<in> set post. currentScore dts x \<le> h')"
        using True by auto
      then show ?thesis by blast
    qed
  next
    case False
    with Cons.prems have l: "best_loop dts (b, h) rs = (b', h')" by simp
    from Cons.IH [OF l] show ?thesis
    proof
      assume "b' = b \<and> h' = h \<and> (\<forall>x \<in> set rs. currentScore dts x \<le> h)"
      with False show ?thesis by auto
    next
      assume "\<exists>pre r' post. rs = pre @ r' # post \<and> b' = Some r' \<and> currentScore dts r' = h' \<and>
          h < h' \<and>
          (\<forall>x \<in> set pre. currentScore dts x < h') \<and> (\<forall>x \<in> set post. currentScore dts x \<le> h')"
      then obtain pre r' post where
        p: "rs = pre @ r' # post" "b' = Some r'" "currentScore dts r' = h'" "h < h'"
           "\<forall>x \<in> set pre. currentScore dts x < h'" "\<forall>x \<in> set post. currentScore dts x \<le> h'"
        by blast
      then have "r # rs = (r # pre) @ r' # post \<and> b' = Some r' \<and> currentScore dts r' = h' \<and> h < h' \<and>
          (\<forall>x \<in> set (r # pre). currentScore dts x < h') \<and> (\<forall>x \<in> set post. currentScore dts x \<le> h')"
        using False by auto
      then show ?thesis by blast
    qed
  qed
qed

text \<open>
  Claim C3. For a catalog whose units are strings (the data model's catalog; any other
  makes the filter throw) the matcher returns a result, and: the candidates are exactly
  the catalog entries whose unit equals the row's unit up to case, in catalog order; the
  score of an entry is 2 times the number of description tokens among the tokens of its
  name plus the number among the tokens of its keywords; no candidate scores more than
  the highest score; there is no match exactly when every candidate scores 0 (so also
  when there is no candidate), and then the highest score is 0; a match has a positive
  score, equal to the highest, and every candidate before it in the catalog scores
  strictly less. The result is a function of catalog, unit and description.
\<close>

theorem fuzzy_match_first_highest_candidate:
  assumes "units_are_strings ratesData"
  shows "\<exists>bestMatch highestScore.
     fuzzy_match desc (toLowerCase u) ratesData = Inr (bestMatch, highestScore) \<and>
     relevant_rates (toLowerCase u) ratesData
       = Inr (filter (unit_matches (toLowerCase u)) ratesData) \<and>
     (\<forall>r. unit_matches (toLowerCase u) r \<longleftrightarrow>
        (\<exists>s. r_unit r = Str s \<and> toLowerCase s = toLowerCase u)) \<and>
     (\<forall>r. currentScore (tokenize (Str desc)) r =
        2 * card (set (tokenize (Str desc)) \<inter> set (tokenize (r_item_name r)))
        + 1 * card (set (tokenize (Str desc)) \<inter> set (tokenize (r_keywords r)))) \<and>
     (\<forall>r \<in> set (filter (unit_matches (toLowerCase u)) ratesData).
        currentScore (tokenize (Str desc)) r \<le> highestScore) \<and>
     (bestMatch = None \<longleftrightarrow>
        (\<forall>r \<in> set (filter (unit_matches (toLowerCase u)) ratesData).
           currentScore (tokenize (Str desc)) r = 0)) \<and>
     (bestMatch = None \<longrightarrow> highestScore = 0) \<and>
     (\<forall>r. bestMatch = Some r \<longrightarrow>
        0 < highestScore \<and>
        (\<exists>pre post. filter (unit_matches (toLowerCase u)) ratesData = pre @ r # post \<and>
           currentScore (tokenize (Str desc)) r = highestScore \<and>
           (\<forall>x \<in> set pre. currentScore (tokenize (Str desc)) x < highestScore)))"
proof -
  let ?cands = "filter (unit_matches (toLowerCase u)) ratesData"
  let ?dts = "tokenize (Str desc)"
  obtain b h where l: "best_loop ?dts (None, 0) ?cands = (b, h)"
    by (cases "best_loop ?dts (None, 0) ?cands")
  have rel: "relevant_rates (toLowerCase u) ratesData = Inr ?cands"
    by (rule relevant_rates_typed [OF assms])
  have "best_loop ?dts (None, 0) [] = (None, 0)" by simp
  then have fm: "fuzzy_match desc (toLowerCase u) ratesData = Inr (b, h)"
    using l by (cases "?cands = []") (simp_all add: fuzzy_match_def rel)
  have um: "\<forall>r. unit_matches (toLowerCase u) r \<longleftrightarrow>
        (\<exists>s. r_unit r = Str s \<and> toLowerCase s = toLowerCase u)"
    by (auto simp: unit_matches_def split: jsval.splits)
  have sc: "\<forall>r. currentScore ?dts r =
        2 * card (set ?dts \<inter> set (tokenize (r_item_name r)))
        + 1 * card (set ?dts \<inter> set (tokenize (r_keywords r)))"
    unfolding mult_1 by (intro allI) (rule currentScore_card)
  have bound: "\<forall>r \<in> set ?cands. currentScore ?dts r \<le> h"
    using best_loop_bound [OF l] by simp
  from best_loop_char [OF l]
  have rest: "(b = None \<longleftrightarrow> (\<forall>r \<in> set ?cands. currentScore ?dts r = 0)) \<and>
     (b = None \<longrightarrow> h = 0) \<and>
     (\<forall>r. b = Some r \<longrightarrow> 0 < h \<and>
        (\<exists>pre post. ?cands = pre @ r # post \<and> currentScore ?dts r = h \<and>
           (\<forall>x \<in> set pre. currentScore ?dts x < h)))"
  proof
    assume a: "b = None \<and> h = 0 \<and> (\<forall>r \<in> set ?cands. currentScore ?dts r \<le> 0)"
    then show ?thesis by simp
  next
    assume "\<exists>pre r post. ?cands = pre @ r # post \<and> b = Some r \<and> currentScore ?dts r = h \<and>
       0 < h \<and> (\<forall>x \<in> set pre. currentScore ?dts x < h) \<and>
       (\<forall>x \<in> set post. currentScore ?dts x \<le> h)"
    then obtain pre r post where
      p: "?cands = pre @ r # post" "b = Some r" "currentScore ?dts r = h" "0 < h"
         "\<forall>x \<in> set pre. currentScore ?dts x < h"
      by blast
    from p(1) have "r \<in> set ?cands" by (metis in_set_conv_decomp)
    with p(3,4) have "\<not> (\<forall>r \<in> set ?cands. currentScore ?dts r = 0)" by auto
    with p show ?thesis by blast
  qed
  from fm rel um sc bound rest show ?thesis by blast
qed

theorem fuzzy_match_first_highest_candidate_witness:
  "units_are_strings tie_rates
   \<and> fuzzy_match ''Brick Masonry Walls'' (toLowerCase ''M2'') tie_rates
       = Inr (Some (tie_rates ! 1), 2)
   \<and> filter (unit_matches (toLowerCase ''M2'')) tie_rates = [tie_rates ! 1, tie_rates ! 2]
   \<and> currentScore (tokenize (Str ''Brick Masonry Walls'')) (tie_rates ! 2) = 2
   \<and> (\<exists>pre post. filter (unit_matches (toLowerCase ''M2'')) tie_rates
          = pre @ (tie_rates ! 1) # post \<and>
        (\<forall>x \<in> set pre. currentScore (tokenize (Str ''Brick Masonry Walls'')) x < 2))"
proof -
  have t: "units_are_strings tie_rates"
    by (simp add: units_are_strings_def tie_rates_def)
  have f: "fuzzy_match ''Brick Masonry Walls'' (toLowerCase ''M2'') tie_rates
           = Inr (Some (tie_rates ! 1), 2)"
    by code_simp
  have c: "filter (unit_matches (toLowerCase ''M2'')) tie_rates = [tie_rates ! 1, tie_rates ! 2]"
    by code_simp
  have s: "currentScore (tokenize (Str ''Brick Masonry Walls'')) (tie_rates ! 2) = 2"
    by code_simp
  from fuzzy_match_first_highest_candidate [OF t, of "''Brick Masonry Walls''" "''M2''"]
  obtain b h where
    1: "fuzzy_match ''Brick Masonry Walls'' (toLowerCase ''M2'') tie_rates = Inr (b, h)"
    and 2: "\<forall>r. b = Some r \<longrightarrow>
        0 < h \<and>
        (\<exists>pre post. filter (unit_matches (toLowerCase ''M2'')) tie_rates = pre @ r # post \<and>
           currentScore (tokenize (Str ''Brick Masonry Walls'')) r = h \<and>
           (\<forall>x \<in> set pre. currentScore (tokenize (Str ''Brick Masonry Walls'')) x < h))"
    by blast
  from 1 f have e: "b = Some (tie_rates ! 1)" "h = 2" by simp_all
  from 2 e have "\<exists>pre post. filter (unit_matches (toLowerCase ''M2'')) tie_rates
          = pre @ (tie_rates ! 1) # post \<and>
        (\<forall>x \<in> set pre. currentScore (tokenize (Str ''Brick Masonry Walls'')) x < 2)"
    by blast
  with t f c s show ?thesis by blast
qed

section \<open>The advisor adapter\<close>

lemma ai_try_Some_iff:
  "ai_try rt response = Inr (Some n) \<longleftrightarrow>
     (\<exists>data s parsed. response = HttpOk data \<and> rawText_of data = Some (JStr s) \<and> s \<noteq> [] \<and>
        jsonParse rt (trim (remove_all ''```'' (remove_all ''```json'' s))) = Some parsed \<and>
        json_truthy (Some parsed) \<and> get_prop parsed ''rate'' = Some (JNum n))"
proof (cases response)
  case HttpFail
  then show ?thesis by (simp add: ai_try_def)
next
  case (HttpOk data)
  show ?thesis
  proof (cases "rawText_of data")
    case None
    with HttpOk show ?thesis by (simp add: ai_try_def)
  next
    case (Some raw)
    show ?thesis
    proof (cases raw)
      case (JStr s)
      with HttpOk Some show ?thesis
        by (auto simp: ai_try_def Let_def split: option.splits json.splits)
    qed (use HttpOk Some in \<open>auto simp: ai_try_def Let_def split: jsnum.splits\<close>)
  qed
qed

lemma getAiRateSuggestion_no_key:
  "key = None \<or> key = Some [] \<Longrightarrow> getAiRateSuggestion rt sent d u key = (Inr None, sent)"
  by (auto simp: getAiRateSuggestion_def)

lemma getAiRateSuggestion_with_key:
  assumes "k \<noteq> []"
  shows "snd (getAiRateSuggestion rt sent d u (Some k)) = sent @ [(geminiApiUrl k, prompt_of d u)]"
    and "fst (getAiRateSuggestion rt sent d u (Some k)) = Inr (Some n) \<longleftrightarrow>
         ai_try rt (axiosPost rt (length sent) (geminiApiUrl k) (prompt_of d u)) = Inr (Some n)"
  using assms
  by (auto simp: getAiRateSuggestion_def Let_def split: sum.splits)

text \<open>
  Claim C7. The adapter always returns (it never throws). Without a credential it
  returns null and sends no request. With one it sends exactly one request, and it
  returns a suggestion exactly when the request succeeds, the reply text is a non-empty
  string, the text without its code fences parses as JSON, and the parsed value has a
  \<^verbatim>\<open>rate\<close> of numeric type; in every other case (a failed request, a text that does
  not parse, a reply of another shape) it returns null.
\<close>

theorem advisor_adapter_contract:
  "(\<exists>r sent'. getAiRateSuggestion rt sent desc u key = (Inr r, sent')) \<and>
   (key = None \<or> key = Some [] \<longrightarrow>
      getAiRateSuggestion rt sent desc u key = (Inr None, sent)) \<and>
   (\<forall>k. key = Some k \<and> k \<noteq> [] \<longrightarrow>
      snd (getAiRateSuggestion rt sent desc u key)
        = sent @ [(geminiApiUrl k, prompt_of desc u)] \<and>
      (\<forall>n. fst (getAiRateSuggestion rt sent desc u key) = Inr (Some n) \<longleftrightarrow>
         (\<exists>data s parsed.
            axiosPost rt (length sent) (geminiApiUrl k) (prompt_of desc u) = HttpOk data \<and>
            rawText_of data = Some (JStr s) \<and> s \<noteq> [] \<and>
            jsonParse rt (trim (remove_all ''```'' (remove_all ''```json'' s))) = Some parsed \<and>
            json_truthy (Some parsed) \<and> get_prop parsed ''rate'' = Some (JNum n))))"
proof (intro conjI allI impI)
  show "\<exists>r sent'. getAiRateSuggestion rt sent desc u key = (Inr r, sent')"
    by (rule getAiRateSuggestion_resolves)
next
  assume "key = None \<or> key = Some []"
  then show "getAiRateSuggestion rt sent desc u key = (Inr None, sent)"
    by (rule getAiRateSuggestion_no_key)
next
  fix k
  assume "key = Some k \<and> k \<noteq> []"
  then show "snd (getAiRateSuggestion rt sent desc u key)
        = sent @ [(geminiApiUrl k, prompt_of desc u)]"
    by (simp add: getAiRateSuggestion_with_key(1))
next
  fix k n
  assume a: "key = Some k \<and> k \<noteq> []"
  then have k: "k \<noteq> []" and e: "key = Some k" by simp_all
  show "fst (getAiRateSuggestion rt sent desc u key) = Inr (Some n) \<longleftrightarrow>
         (\<exists>data s parsed.
            axiosPost rt (length sent) (geminiApiUrl k) (prompt_of desc u) = HttpOk data \<and>
            rawText_of data = Some (JStr s) \<and> s \<noteq> [] \<and>
            jsonParse rt (trim (remove_all ''```'' (remove_all ''```json'' s))) = Some parsed \<and>
            json_truthy (Some parsed) \<and> get_prop parsed ''rate'' = Some (JNum n))"
    unfolding e getAiRateSuggestion_with_key(2) [OF k] by (rule ai_try_Some_iff)
qed

theorem advisor_adapter_contract_witness:
  "getAiRateSuggestion advisor_runtime [] ''Install solar panel array'' ''unit'' None
     = (Inr None, [])
   \<and> getAiRateSuggestion advisor_runtime [] ''Install solar panel array'' ''unit'' (Some ''KEY'')
     = (Inr (Some (Num 15000)),
        [(geminiApiUrl ''KEY'', prompt_of ''Install solar panel array'' ''unit'')])"
proof -
  let ?d = "''Install solar panel array''"
  note c = advisor_adapter_contract [of advisor_runtime "[]" ?d "''unit''"]
  have n: "None = None \<or> None = Some ''''" by simp
  note 1 = c [of None, THEN conjunct2, THEN conjunct1, THEN mp, OF n]
  have k: "Some ''KEY'' = Some ''KEY'' \<and> ''KEY'' \<noteq> []" by simp
  note c3 = c [of "Some ''KEY''", THEN conjunct2, THEN conjunct2, THEN spec, of "''KEY''",
      THEN mp, OF k]
  note s = c3 [THEN conjunct1]
  note i = c3 [THEN conjunct2, THEN spec, of "Num 15000"]
  have a: "axiosPost advisor_runtime (length []) (geminiApiUrl ''KEY'') (prompt_of ?d ''unit'')
           = HttpOk (Some reply_body)"
    by (simp add: advisor_runtime_def)
  have r: "rawText_of (Some reply_body) = Some (JStr reply_text)"
    by code_simp
  have e: "reply_text \<noteq> []"
    by (simp add: reply_text_def)
  have p: "jsonParse advisor_runtime (trim (remove_all ''```'' (remove_all ''```json'' reply_text)))
           = Some (JObj [(''rate'', JNum (Num 15000))])"
    by code_simp
  have f: "fst (getAiRateSuggestion advisor_runtime [] ?d ''unit'' (Some ''KEY''))
          = Inr (Some (Num 15000))"
    by (rule i [THEN iffD2]) (intro exI conjI, rule a, rule r, rule e, rule p, simp_all)
  from s have s': "snd (getAiRateSuggestion advisor_runtime [] ?d ''unit'' (Some ''KEY''))
          = [(geminiApiUrl ''KEY'', prompt_of ?d ''unit'')]"
    by (simp only: append_Nil)
  from f s' have 2: "getAiRateSuggestion advisor_runtime [] ?d ''unit'' (Some ''KEY'')
     = (Inr (Some (Num 15000)), [(geminiApiUrl ''KEY'', prompt_of ?d ''unit'')])"
    by (simp only: prod_eq_iff fst_conv snd_conv simp_thms)
  from 1 2 show ?thesis by (rule conjI)
qed

section \<open>Persistence\<close>

lemma snapshot_sql_insert [simp]: "snapshot (sql_insert it c) = snapshot c"
  by (simp add: sql_insert_def)












section \<open>The rate limiter\<close>

lemma inv_init: "limiter_inv C (new_RateLimiter C)"
  by (simp add: limiter_inv_def new_RateLimiter_def)

lemma inv_clock:
  "limiter_inv C s \<Longrightarrow> clock s \<le> t \<Longrightarrow> limiter_inv C (s\<lparr>clock := t\<rparr>)"
  unfolding limiter_inv_def by (auto intro: order_trans)

lemma inv_push:
  "limiter_inv C s \<Longrightarrow>
   limiter_inv C (s\<lparr>lim := (lim s)\<lparr>queue := queue (lim s) @ [task]\<rparr>, enqueued := enqueued s @ [task]\<rparr>)"
  unfolding limiter_inv_def by simp

lemma length_settled:
  "limiter_inv C s \<Longrightarrow> running s = None \<Longrightarrow> length (settled s) = length (started s)"
  unfolding limiter_inv_def by (metis (no_types, lifting) append_Nil2 length_map option.simps(4))

lemma length_settled_running:
  "limiter_inv C s \<Longrightarrow> running s = Some t \<Longrightarrow> Suc (length (settled s)) = length (started s)"
  unfolding limiter_inv_def
  by (metis (no_types, lifting) length_append_singleton length_map option.simps(5))

lemma inv_process:
  assumes "limiter_inv C s"
  shows "limiter_inv C (process s)"
proof (cases "isProcessing (lim s) \<or> queue (lim s) = []")
  case True
  with assms show ?thesis by (auto simp: process_def)
next
  case False
  then obtain task rest where q: "queue (lim s) = task # rest" and idle: "\<not> isProcessing (lim s)"
    by (cases "queue (lim s)") auto
  from assms idle have r: "running s = None" and tm: "timer s = None"
    unfolding limiter_inv_def by auto
  from length_settled [OF assms r] have len: "length (settled s) = length (started s)" .
  have p: "process s = s\<lparr>lim := (lim s)\<lparr>isProcessing := True, queue := rest\<rparr>,
                  running := Some task, started := started s @ [(task, clock s)]\<rparr>"
    using q idle by (simp add: process_def)
  from assms idle have late: "\<forall>e \<in> set (settled s). snd (snd e) + C \<le> clock s"
    unfolding limiter_inv_def by blast
  have g: "\<forall>i. Suc i < length (started s @ [(task, clock s)]) \<longrightarrow>
        snd (snd (settled s ! i)) + C \<le> snd ((started s @ [(task, clock s)]) ! Suc i)"
  proof (intro allI impI)
    fix i
    assume a: "Suc i < length (started s @ [(task, clock s)])"
    show "snd (snd (settled s ! i)) + C \<le> snd ((started s @ [(task, clock s)]) ! Suc i)"
    proof (cases "Suc i < length (started s)")
      case True
      with assms show ?thesis unfolding limiter_inv_def by (simp add: nth_append)
    next
      case False
      with a have e: "Suc i = length (started s)" by simp
      then have "i < length (settled s)" using len by simp
      then have "settled s ! i \<in> set (settled s)" by simp
      with late have "snd (snd (settled s ! i)) + C \<le> clock s" by blast
      with e show ?thesis by (simp add: nth_append)
    qed
  qed
  have f: "\<forall>i < length (settled s). snd ((started s @ [(task, clock s)]) ! i) \<le> snd (snd (settled s ! i))"
    using assms len unfolding limiter_inv_def by (simp add: nth_append)
  show ?thesis
    unfolding p limiter_inv_def
    using assms q r tm g f unfolding limiter_inv_def
    by auto
qed

lemma inv_settle:
  assumes "limiter_inv C s" "task_settles out s = Some s'"
  shows "limiter_inv C s'"
proof -
  from assms(2) obtain task where r: "running s = Some task"
    and s': "s' = s\<lparr>settled := settled s @ [(task, out, clock s)], running := None,
                  timer := Some (clock s + minDelayMs (lim s))\<rparr>"
    by (auto simp: task_settles_def split: option.splits)
  from length_settled_running [OF assms(1) r] have len: "Suc (length (settled s)) = length (started s)" .
  from assms(1) r have tm: "timer s = None" and busy: "isProcessing (lim s)" and c: "minDelayMs (lim s) = C"
    unfolding limiter_inv_def by auto
  from assms(1) have st: "\<forall>a \<in> set (started s). snd a \<le> clock s"
    unfolding limiter_inv_def by blast
  have f: "\<forall>i < length (settled s @ [(task, out, clock s)]).
      snd (started s ! i) \<le> snd (snd ((settled s @ [(task, out, clock s)]) ! i))"
  proof (intro allI impI)
    fix i
    assume a: "i < length (settled s @ [(task, out, clock s)])"
    show "snd (started s ! i) \<le> snd (snd ((settled s @ [(task, out, clock s)]) ! i))"
    proof (cases "i < length (settled s)")
      case True
      with assms(1) show ?thesis unfolding limiter_inv_def by (simp add: nth_append)
    next
      case False
      with a have e: "i = length (settled s)" by simp
      with len have "started s ! i \<in> set (started s)" by simp
      with st e show ?thesis by (simp add: nth_append)
    qed
  qed
  have g: "\<forall>i. Suc i < length (started s) \<longrightarrow>
      snd (snd ((settled s @ [(task, out, clock s)]) ! i)) + C \<le> snd (started s ! Suc i)"
    using assms(1) len unfolding limiter_inv_def by (simp add: nth_append)
  have h0: "\<forall>e \<in> set (settled s). snd (snd e) \<le> clock s"
  proof
    fix e
    assume "e \<in> set (settled s)"
    then obtain i where i: "i < length (settled s)" "e = settled s ! i"
      by (metis in_set_conv_nth)
    with len have "Suc i < length (started s)" by simp
    with assms(1) i have "snd (snd e) + C \<le> snd (started s ! Suc i)"
      unfolding limiter_inv_def by blast
    moreover have "started s ! Suc i \<in> set (started s)"
      using \<open>Suc i < length (started s)\<close> by simp
    ultimately show "snd (snd e) \<le> clock s" using st by force
  qed
  have m: "map fst (settled s @ [(task, out, clock s)]) = map fst (started s)"
    using assms(1) r unfolding limiter_inv_def by simp
  show ?thesis
    unfolding s' limiter_inv_def
    using assms(1) c busy f g h0 m unfolding limiter_inv_def
    by auto
qed

lemma inv_fire:
  assumes "limiter_inv C s" "timer_fires s = Some s'"
  shows "limiter_inv C s'"
proof -
  from assms(2) obtain due where tm: "timer s = Some due" and d: "due \<le> clock s"
    and s': "s' = process (s\<lparr>lim := (lim s)\<lparr>isProcessing := False\<rparr>, timer := None\<rparr>)"
    by (auto simp: timer_fires_def split: option.splits if_splits)
  from assms(1) tm have r: "running s = None"
    unfolding limiter_inv_def by auto
  from assms(1) tm d have late: "\<forall>e \<in> set (settled s). snd (snd e) + C \<le> clock s"
    unfolding limiter_inv_def by (meson order_trans)
  have "limiter_inv C (s\<lparr>lim := (lim s)\<lparr>isProcessing := False\<rparr>, timer := None\<rparr>)"
    using assms(1) r late unfolding limiter_inv_def by simp
  then show ?thesis unfolding s' by (rule inv_process)
qed

lemma inv_step:
  assumes "limiter_inv C s" "step e s = Some s'"
  shows "limiter_inv C s'"
proof -
  from assms(2) have t: "clock s \<le> event_time e"
    by (auto simp: step_def split: if_splits)
  from inv_clock [OF assms(1) t] have i: "limiter_inv C (s\<lparr>clock := event_time e\<rparr>)" .
  show ?thesis
  proof (cases e)
    case (Add t task)
    with assms(2) have "s' = add task (s\<lparr>clock := event_time e\<rparr>)"
      by (auto simp: step_def split: if_splits)
    then show ?thesis
      unfolding add_def using inv_process [OF inv_push [OF i]] by simp
  next
    case (Settle t out)
    with assms(2) have "task_settles out (s\<lparr>clock := event_time e\<rparr>) = Some s'"
      by (auto simp: step_def split: if_splits)
    with i show ?thesis by (rule inv_settle)
  next
    case (Fire t)
    with assms(2) have "timer_fires (s\<lparr>clock := event_time e\<rparr>) = Some s'"
      by (auto simp: step_def split: if_splits)
    with i show ?thesis by (rule inv_fire)
  qed
qed

lemma inv_run:
  "limiter_inv C s \<Longrightarrow> run es s = Some s' \<Longrightarrow> limiter_inv C s'"
proof (induction es arbitrary: s)
  case Nil
  then show ?case by simp
next
  case (Cons e es)
  from Cons.prems(2) obtain s1 where s1: "step e s = Some s1" and r: "run es s1 = Some s'"
    by (auto split: option.splits)
  from inv_step [OF Cons.prems(1) s1] r show ?case by (rule Cons.IH)
qed

lemma settle_then_fire:
  assumes "minDelayMs (lim s) = C" "step (Settle t out) s = Some s1"
  shows "\<exists>task. running s = Some task \<and>
           s1 = s\<lparr>clock := t, settled := settled s @ [(task, out, t)], running := None,
                  timer := Some (t + C)\<rparr> \<and>
           (\<forall>t' \<ge> t + C. \<exists>s2. step (Fire t') s1 = Some s2 \<and>
              (\<forall>task' rest. queue (lim s) = task' # rest \<longrightarrow>
                 running s2 = Some task' \<and> started s2 = started s @ [(task', t')] \<and>
                 queue (lim s2) = rest))"
proof -
  from assms obtain task where r: "running s = Some task"
    and s1: "s1 = s\<lparr>clock := t, settled := settled s @ [(task, out, t)], running := None,
                  timer := Some (t + C)\<rparr>"
    by (auto simp: step_def task_settles_def Let_def split: if_splits option.splits)
  have "\<forall>t' \<ge> t + C. \<exists>s2. step (Fire t') s1 = Some s2 \<and>
              (\<forall>task' rest. queue (lim s) = task' # rest \<longrightarrow>
                 running s2 = Some task' \<and> started s2 = started s @ [(task', t')] \<and>
                 queue (lim s2) = rest)"
    unfolding s1 by (auto simp: step_def timer_fires_def process_def Let_def)
  with r s1 show ?thesis by blast
qed

text \<open>
  Claim C5. In every state that the shared limiter (delay 4500 ms) reaches, whatever
  the tasks added and their timing: the tasks started, followed by the tasks waiting,
  are the tasks added, in the order of \<^verbatim>\<open>add\<close>; the promises settled, followed by the
  one task running if there is one, are the tasks started, in order, so tasks run one
  at a time and settle in FIFO order; each task settles after its start, the next task
  starts at least 4500 ms after that, and so consecutive starts are at least 4500 ms
  apart. When the running task settles, fulfilled or failed alike, only its own promise
  is settled, the queue is left as it is and the timer is armed; and as soon as the
  timer fires, the first waiting task is started.
\<close>

theorem rate_limiter_serializes:
  assumes "run events aiLimiter = Some s"
  shows "map fst (started s) @ queue (lim s) = enqueued s \<and>
         map fst (settled s) @ (case running s of None \<Rightarrow> [] | Some task \<Rightarrow> [task])
           = map fst (started s) \<and>
         (\<forall>i. Suc i < length (started s) \<longrightarrow>
            snd (started s ! i) \<le> snd (snd (settled s ! i)) \<and>
            snd (snd (settled s ! i)) + 4500 \<le> snd (started s ! Suc i) \<and>
            snd (started s ! i) + 4500 \<le> snd (started s ! Suc i)) \<and>
         (\<forall>t out s1. step (Settle t out) s = Some s1 \<longrightarrow>
            (\<exists>task. running s = Some task \<and>
               s1 = s\<lparr>clock := t, settled := settled s @ [(task, out, t)], running := None,
                      timer := Some (t + 4500)\<rparr> \<and>
               (\<forall>t' \<ge> t + 4500. \<exists>s2. step (Fire t') s1 = Some s2 \<and>
                  (\<forall>task' rest. queue (lim s) = task' # rest \<longrightarrow>
                     running s2 = Some task' \<and> started s2 = started s @ [(task', t')] \<and>
                     queue (lim s2) = rest))))"
proof -
  have "limiter_inv 4500 aiLimiter"
    unfolding aiLimiter_def by (rule inv_init)
  from inv_run [OF this assms] have i: "limiter_inv 4500 s" .
  then have m: "minDelayMs (lim s) = 4500" by (simp add: limiter_inv_def)
  have g: "\<forall>i. Suc i < length (started s) \<longrightarrow>
            snd (started s ! i) \<le> snd (snd (settled s ! i)) \<and>
            snd (snd (settled s ! i)) + 4500 \<le> snd (started s ! Suc i) \<and>
            snd (started s ! i) + 4500 \<le> snd (started s ! Suc i)"
  proof (intro allI impI)
    fix k
    assume a: "Suc k < length (started s)"
    have "length (started s) \<le> Suc (length (settled s))"
    proof (cases "running s")
      case None
      from length_settled [OF i None] show ?thesis by simp
    next
      case (Some t)
      from length_settled_running [OF i Some] show ?thesis by simp
    qed
    with a have "k < length (settled s)" by simp
    with i have 1: "snd (started s ! k) \<le> snd (snd (settled s ! k))"
      by (simp add: limiter_inv_def)
    from i a have 2: "snd (snd (settled s ! k)) + 4500 \<le> snd (started s ! Suc k)"
      by (simp add: limiter_inv_def)
    from 1 2 show "snd (started s ! k) \<le> snd (snd (settled s ! k)) \<and>
            snd (snd (settled s ! k)) + 4500 \<le> snd (started s ! Suc k) \<and>
            snd (started s ! k) + 4500 \<le> snd (started s ! Suc k)"
      by simp
  qed
  from i have f: "map fst (started s) @ queue (lim s) = enqueued s"
    and o: "map fst (settled s) @ (case running s of None \<Rightarrow> [] | Some task \<Rightarrow> [task])
           = map fst (started s)"
    by (simp_all add: limiter_inv_def)
  have p: "\<forall>t out s1. step (Settle t out) s = Some s1 \<longrightarrow>
            (\<exists>task. running s = Some task \<and>
               s1 = s\<lparr>clock := t, settled := settled s @ [(task, out, t)], running := None,
                      timer := Some (t + 4500)\<rparr> \<and>
               (\<forall>t' \<ge> t + 4500. \<exists>s2. step (Fire t') s1 = Some s2 \<and>
                  (\<forall>task' rest. queue (lim s) = task' # rest \<longrightarrow>
                     running s2 = Some task' \<and> started s2 = started s @ [(task', t')] \<and>
                     queue (lim s2) = rest)))"
    by (intro allI impI) (rule settle_then_fire [OF m])
  from f o g p show ?thesis by (intro conjI)
qed

theorem rate_limiter_serializes_witness:
  "run sample_events aiLimiter = Some sample_final
   \<and> map fst (started sample_final) @ queue (lim sample_final) = [1, 2, 3]
   \<and> Suc 0 < length (started sample_final)
   \<and> snd (snd (settled sample_final ! 0)) + 4500 \<le> snd (started sample_final ! Suc 0)
   \<and> fst (snd (settled sample_final ! 0)) = Failed
   \<and> map fst (started sample_final) = [1, 2, 3]"
proof -
  have h: "run sample_events aiLimiter = Some sample_final"
    by (simp add: sample_events_def aiLimiter_def new_RateLimiter_def sample_final_def step_def
        add_def process_def task_settles_def timer_fires_def Let_def)
  have l: "Suc 0 < length (started sample_final)"
    by (simp add: sample_final_def)
  note t = rate_limiter_serializes [OF h]
  from t have 1: "map fst (started sample_final) @ queue (lim sample_final) = enqueued sample_final"
    by (rule conjunct1)
  from t have "\<forall>i. Suc i < length (started sample_final) \<longrightarrow>
            snd (started sample_final ! i) \<le> snd (snd (settled sample_final ! i)) \<and>
            snd (snd (settled sample_final ! i)) + 4500 \<le> snd (started sample_final ! Suc i) \<and>
            snd (started sample_final ! i) + 4500 \<le> snd (started sample_final ! Suc i)"
    by (elim conjE)
  from this [THEN spec, of 0, THEN mp, OF l]
  have 2: "snd (snd (settled sample_final ! 0)) + 4500 \<le> snd (started sample_final ! Suc 0)"
    by (elim conjE)
  have 3: "enqueued sample_final = [1, 2, 3]" "fst (snd (settled sample_final ! 0)) = Failed"
    "map fst (started sample_final) = [1, 2, 3]"
    by (simp_all add: sample_final_def)
  from h 1 2 3 l show ?thesis by simp
qed

section \<open>Scenarios of the specification\<close>

text \<open>
  Scenario A: the row Brick Masonry Walls, 850, unit m2, against the catalog entry
  Brickwork at 45.50 is priced from the catalog, total 38675. Scenario C: without a
  credential the row Install solar panel array has no rate, no total and the source
  Manual, and adds nothing to the project total.
\<close>

lemma scenario_A_and_C:
  "parseAndMatchBOQ sample_runtime [] ''boq'' sample_rates None
     = (Inr (sample_items, Num 38675), [])"
  by code_simp

text \<open>
  Scenario B: with a credential and the advisor's reply \<^verbatim>\<open>{"rate": 15000}\<close> in code
  fences, the same row is priced by the advisor: total 150000, flag set, one request
  sent.
\<close>

lemma scenario_B:
  "parseAndMatchBOQ advisor_runtime [] ''boq'' [] (Some ''KEY'')
     = (Inr ([\<lparr>item_no = ''2'', description = ''Install solar panel array'', quantity = Num 10,
                unit = ''unit'', rate = Some (Num 15000), total = Some (Num 150000),
                isAiSuggestion = True, source = ''AI Estimate''\<rparr>], Num 150000),
        [(geminiApiUrl ''KEY'', prompt_of ''Install solar panel array'' ''unit'')])"
  by code_simp

end
